theory Spec2Isabelle
  imports Complex_Main "HOL-Library.Sublist" "HOL-Library.Multiset"
begin

section \<open>The outside world of app.py\<close>

text \<open>
  app.py is glue around three services: the photo API (over \<^verbatim>\<open>requests.get\<close>), the
  pretrained CLIP model, and \<^verbatim>\<open>zipfile\<close>. None of them is code of the repository, so
  each is a parameter of the model, collected in the record \<open>world\<close>. What the program
  does to the outside (HTTP requests, Streamlit output, calls of the text encoder, archives
  opened) is logged in the record \<open>state\<close>, which every function takes and returns.

  An exception is a value \<open>Exception m\<close>, with \<open>m\<close> what \<^verbatim>\<open>str(e)\<close> prints; a
  computation that may raise returns \<open>exn + 'a\<close> (\<open>Inl\<close> the exception). Only
  exceptions below \<^verbatim>\<open>Exception\<close> are modelled, which are the ones
  \<^verbatim>\<open>except Exception\<close> catches.
\<close>

type_synonym url = string

type_synonym bytes = string

datatype exn = Exception string

fun str_exn :: "exn \<Rightarrow> string" where
  "str_exn (Exception m) = m"

text \<open>
  A photo of the API's JSON answer is a dict of dicts: \<^verbatim>\<open>img["src"]["small"]\<close>. The
  answer itself is a dict whose \<^verbatim>\<open>"photos"\<close> entry, when present, is a list of photos.
\<close>

type_synonym photo = "string \<rightharpoonup> (string \<rightharpoonup> url)"

record response =
  status_code :: int
  content :: bytes
  json :: "exn + (string \<rightharpoonup> photo list)"

text \<open>
  The two kinds of request the program sends: the search at \<^verbatim>\<open>PEXELS_URL\<close> with its
  parameters \<^verbatim>\<open>query\<close>, \<^verbatim>\<open>per_page\<close> and \<^verbatim>\<open>page\<close> (lines 26-27), and the plain
  GET of an image URL (lines 56 and 78).
\<close>

datatype request = Search string int int | Get url

text \<open>
  \<open>requests_get w t r\<close> is what \<^verbatim>\<open>requests.get\<close> does with request \<open>r\<close> when it is
  the \<open>t\<close>-th request the program sends (counted from 0): it raises or it returns a
  response. The index lets the network answer the same URL differently at different
  times. A body that cannot be read is counted as a request that raised: in lines 56-57
  and 78-80 both stand under the same \<^verbatim>\<open>try\<close>.

  \<open>encode_text w query\<close> is lines 51-52: the keyword is tokenized and encoded, and the
  embedding is normalised. It stands before the loop and outside its \<^verbatim>\<open>try\<close>, and it
  may raise: \<^verbatim>\<open>clip.tokenize\<close> raises a \<^verbatim>\<open>RuntimeError\<close> for a keyword with more
  tokens than the model's context holds, and line 93 puts no bound on the keyword.

  \<open>similarity w query_embedding img\<close> is lines 57-63 for the image bytes \<open>img\<close>: the
  picture is decoded and preprocessed, its embedding is normalised, and the dot product
  with the query's embedding is the score; any of these steps may raise (bytes that are
  no image). The score is the real number the float stands for: the model computes in
  single or half precision, and on such a value the test \<^verbatim>\<open>similarity > 0.2\<close> of line 65,
  against the double nearest to 0.2, holds exactly when the value exceeds 1/5. A NaN
  fails the test and raises nothing, as a score of 0 does.

  \<open>archive_length w ms\<close> is the length in bytes of the finished DEFLATE archive with
  members \<open>ms\<close>; compression itself is not modelled.
\<close>

type_synonym embedding = "real list"

record world =
  requests_get :: "nat \<Rightarrow> request \<Rightarrow> exn + response"
  encode_text :: "string \<Rightarrow> exn + embedding"
  similarity :: "embedding \<Rightarrow> bytes \<Rightarrow> exn + real"
  archive_length :: "(string \<times> bytes) list \<Rightarrow> nat"

text \<open>
  The \<^verbatim>\<open>BytesIO\<close> buffer a \<^verbatim>\<open>ZipFile\<close> writes to: the members written so far (name
  and data, in the order written), whether the central directory has been written (which
  \<^verbatim>\<open>ZipFile.close\<close> does at the end of the \<^verbatim>\<open>with\<close> block and which makes the bytes a
  complete archive), and the stream position \<^verbatim>\<open>tell()\<close>.
\<close>

record zip_buffer =
  members :: "(string \<times> bytes) list"
  central_directory :: bool
  tell :: nat

datatype ui_event =
    St_error string
  | Sidebar_error string
  | Spinner string
  | Success string
  | Columns nat
  | Image nat url
  | Write string
  | Download_button string zip_buffer string string

record state =
  sent :: "request list"
  shown :: "ui_event list"
  encoded :: "string list"
  archives :: nat

section \<open>Python's built-ins\<close>

definition digit_chr :: "nat \<Rightarrow> char" where
  "digit_chr d = char_of (48 + d)"

fun str_nat :: "nat \<Rightarrow> string" where
  "str_nat n = (if n < 10 then [digit_chr n] else str_nat (n div 10) @ [digit_chr (n mod 10)])"

declare str_nat.simps [simp del]

definition str_int :: "int \<Rightarrow> string" where
  "str_int i = (if i < 0 then CHR ''-'' # str_nat (nat (- i)) else str_nat (nat i))"

text \<open>\<^verbatim>\<open>xs[:n]\<close>: a negative \<open>n\<close> counts from the end.\<close>

definition slice_to :: "int \<Rightarrow> 'a list \<Rightarrow> 'a list" where
  "slice_to n xs = (if 0 \<le> n then take (nat n) xs else take (length xs - nat (- n)) xs)"

text \<open>\<^verbatim>\<open>d[k]\<close> on a dict raises \<^verbatim>\<open>KeyError\<close>, whose text is the key in quotes.\<close>

definition key_error :: "string \<Rightarrow> exn" where
  "key_error k = Exception (CHR 0x27 # k @ [CHR 0x27])"

definition subscript :: "(string \<rightharpoonup> 'v) \<Rightarrow> string \<Rightarrow> exn + 'v" where
  "subscript d k = (case d k of None \<Rightarrow> Inl (key_error k) | Some v \<Rightarrow> Inr v)"

text \<open>
  \<^verbatim>\<open>try: body except Exception as e: handler\<close>. An exception of the body is handed to
  the handler, with the state the body left; one raised by the handler itself leaves the
  statement.
\<close>

definition try_except ::
  "(state \<Rightarrow> (exn + 'a) \<times> state) \<Rightarrow> (exn \<Rightarrow> state \<Rightarrow> (exn + 'a) \<times> state) \<Rightarrow>
   state \<Rightarrow> (exn + 'a) \<times> state" where
  "try_except body handler s =
     (case body s of
        (Inl e, s1) \<Rightarrow> handler e s1
      | (Inr v, s1) \<Rightarrow> (Inr v, s1))"

section \<open>Effects\<close>

definition display :: "ui_event \<Rightarrow> state \<Rightarrow> state" where
  "display ev s = s\<lparr>shown := shown s @ [ev]\<rparr>"

definition st_error :: "string \<Rightarrow> state \<Rightarrow> state" where
  "st_error msg s = display (St_error msg) s"

definition http_get :: "world \<Rightarrow> request \<Rightarrow> state \<Rightarrow> (exn + response) \<times> state" where
  "http_get w req s = (requests_get w (length (sent s)) req, s\<lparr>sent := sent s @ [req]\<rparr>)"

section \<open>filter\_images (lines 49-70)\<close>

text \<open>The body of the \<^verbatim>\<open>try\<close>, lines 56-66; it returns \<^verbatim>\<open>filtered_urls\<close> as it leaves it.\<close>

definition filter_try ::
  "world \<Rightarrow> embedding \<Rightarrow> url \<Rightarrow> url list \<Rightarrow> state \<Rightarrow> (exn + url list) \<times> state" where
  "filter_try w query_embedding url filtered_urls s =
     (case http_get w (Get url) s of
        (Inl e, s1) \<Rightarrow> (Inl e, s1)
      | (Inr response, s1) \<Rightarrow>
          (case similarity w query_embedding (content response) of
             Inl e \<Rightarrow> (Inl e, s1)
           | Inr sim \<Rightarrow>
               (Inr (if 0.2 < sim then filtered_urls @ [url] else filtered_urls), s1)))"

fun filter_loop ::
  "world \<Rightarrow> embedding \<Rightarrow> url list \<Rightarrow> url list \<Rightarrow> state \<Rightarrow> (exn + url list) \<times> state" where
  "filter_loop w query_embedding [] filtered_urls s = (Inr filtered_urls, s)"
| "filter_loop w query_embedding (url # rest) filtered_urls s =
     (case try_except (filter_try w query_embedding url filtered_urls)
             (\<lambda>e s1. (Inr filtered_urls,
                st_error (''Error processing image: '' @ str_exn e) s1)) s of
        (Inl e, s1) \<Rightarrow> (Inl e, s1)
      | (Inr filtered_urls', s1) \<Rightarrow> filter_loop w query_embedding rest filtered_urls' s1)"

text \<open>
  Lines 50-70. The call of the text encoder is logged in \<open>encoded\<close> whether it returns
  or not; an exception of lines 51-52 leaves the function, since no \<^verbatim>\<open>try\<close> encloses
  them.
\<close>

definition filter_images ::
  "world \<Rightarrow> url list \<Rightarrow> string \<Rightarrow> state \<Rightarrow> (exn + url list) \<times> state" where
  "filter_images w image_urls query s =
     (case encode_text w query of
        Inl e \<Rightarrow> (Inl e, s\<lparr>encoded := encoded s @ [query]\<rparr>)
      | Inr query_embedding \<Rightarrow>
          filter_loop w query_embedding image_urls [] (s\<lparr>encoded := encoded s @ [query]\<rparr>))"

section \<open>download\_images\_as\_zip (lines 72-86)\<close>

text \<open>
  Opening the \<^verbatim>\<open>ZipFile\<close> on a fresh buffer, closing it and \<^verbatim>\<open>seek(0)\<close> work in
  memory and are taken to return; \<^verbatim>\<open>writestr\<close> stands under the \<^verbatim>\<open>try\<close> with the GET.
\<close>

definition writestr :: "string \<Rightarrow> bytes \<Rightarrow> zip_buffer \<Rightarrow> zip_buffer" where
  "writestr name data zf = zf\<lparr>members := members zf @ [(name, data)]\<rparr>"

definition close_zip :: "world \<Rightarrow> zip_buffer \<Rightarrow> zip_buffer" where
  "close_zip w zf = zf\<lparr>central_directory := True, tell := archive_length w (members zf)\<rparr>"

definition seek :: "nat \<Rightarrow> zip_buffer \<Rightarrow> zip_buffer" where
  "seek n zf = zf\<lparr>tell := n\<rparr>"

definition image_name :: "nat \<Rightarrow> string" where
  "image_name i = ''image_'' @ str_nat (i + 1) @ ''.jpg''"

text \<open>The body of the \<^verbatim>\<open>try\<close>, lines 78-81.\<close>

definition download_try ::
  "world \<Rightarrow> nat \<Rightarrow> url \<Rightarrow> zip_buffer \<Rightarrow> state \<Rightarrow> (exn + zip_buffer) \<times> state" where
  "download_try w i url zf s =
     (case http_get w (Get url) s of
        (Inl e, s1) \<Rightarrow> (Inl e, s1)
      | (Inr response, s1) \<Rightarrow>
          if status_code response = 200
          then (Inr (writestr (image_name i) (content response) zf), s1)
          else (Inr zf, s1))"

fun download_loop ::
  "world \<Rightarrow> (nat \<times> url) list \<Rightarrow> zip_buffer \<Rightarrow> state \<Rightarrow> (exn + zip_buffer) \<times> state" where
  "download_loop w [] zf s = (Inr zf, s)"
| "download_loop w ((i, url) # rest) zf s =
     (case try_except (download_try w i url zf)
             (\<lambda>e s1. (Inr zf,
                st_error (''Error downloading image '' @ str_nat (i + 1) @ '': '' @ str_exn e) s1)) s of
        (Inl e, s1) \<Rightarrow> (Inl e, s1)
      | (Inr zf', s1) \<Rightarrow> download_loop w rest zf' s1)"

definition download_images_as_zip ::
  "world \<Rightarrow> url list \<Rightarrow> state \<Rightarrow> (exn + zip_buffer) \<times> state" where
  "download_images_as_zip w image_urls s =
     (case download_loop w (enumerate 0 image_urls)
             \<lparr>members = [], central_directory = False, tell = 0\<rparr>
             (s\<lparr>archives := archives s + 1\<rparr>) of
        (Inl e, s1) \<Rightarrow> (Inl e, s1)
      | (Inr zf, s1) \<Rightarrow> (Inr (seek 0 (close_zip w zf)), s1))"

section \<open>fetch\_image\_urls (lines 19-47)\<close>

text \<open>\<^verbatim>\<open>img["src"][k]\<close>.\<close>

definition photo_src :: "photo \<Rightarrow> string \<Rightarrow> exn + url" where
  "photo_src img k =
     (case subscript img ''src'' of
        Inl e \<Rightarrow> Inl e
      | Inr src \<Rightarrow> subscript src k)"

definition append_src :: "photo \<Rightarrow> string \<Rightarrow> url list \<Rightarrow> exn + url list" where
  "append_src img k image_urls =
     (case photo_src img k of
        Inl e \<Rightarrow> Inl e
      | Inr u \<Rightarrow> Inr (image_urls @ [u]))"

text \<open>The body of the inner loop, lines 32-39.\<close>

definition append_photo :: "string \<Rightarrow> photo \<Rightarrow> url list \<Rightarrow> exn + url list" where
  "append_photo resolution img image_urls =
     (if resolution = ''640x480'' then append_src img ''small'' image_urls
      else if resolution = ''1280x720'' then append_src img ''medium'' image_urls
      else if resolution = ''1920x1080'' then append_src img ''large'' image_urls
      else append_src img ''original'' image_urls)"

fun append_photos :: "string \<Rightarrow> photo list \<Rightarrow> url list \<Rightarrow> exn + url list" where
  "append_photos resolution [] image_urls = Inr image_urls"
| "append_photos resolution (img # imgs) image_urls =
     (case append_photo resolution img image_urls of
        Inl e \<Rightarrow> Inl e
      | Inr image_urls' \<Rightarrow> append_photos resolution imgs image_urls')"

text \<open>\<^verbatim>\<open>results.get("photos", [])\<close>.\<close>

definition get_photos :: "(string \<rightharpoonup> photo list) \<Rightarrow> photo list" where
  "get_photos results = (case results ''photos'' of None \<Rightarrow> [] | Some ps \<Rightarrow> ps)"

text \<open>
  The loop of lines 25-45 over the pages still to request, followed by the
  \<^verbatim>\<open>return\<close> of line 47, which the \<^verbatim>\<open>break\<close> of line 45 jumps to.
\<close>

fun fetch_pages ::
  "world \<Rightarrow> string \<Rightarrow> int \<Rightarrow> string \<Rightarrow> int list \<Rightarrow> url list \<Rightarrow> state \<Rightarrow>
   (exn + url list) \<times> state" where
  "fetch_pages w query num_images resolution [] image_urls s =
     (Inr (slice_to num_images image_urls), s)"
| "fetch_pages w query num_images resolution (page # pages) image_urls s =
     (case http_get w (Search query (min 80 (num_images - int (length image_urls))) page) s of
        (Inl e, s1) \<Rightarrow> (Inl e, s1)
      | (Inr response, s1) \<Rightarrow>
          if status_code response = 200 then
            (case json response of
               Inl e \<Rightarrow> (Inl e, s1)
             | Inr results \<Rightarrow>
                 (case append_photos resolution (get_photos results) image_urls of
                    Inl e \<Rightarrow> (Inl e, s1)
                  | Inr image_urls' \<Rightarrow>
                      if num_images \<le> int (length image_urls')
                      then (Inr (slice_to num_images image_urls'), s1)
                      else fetch_pages w query num_images resolution pages image_urls' s1))
          else
            (Inr [],
             st_error (''Failed to fetch images: '' @ str_int (status_code response)) s1))"

definition fetch_image_urls ::
  "world \<Rightarrow> string \<Rightarrow> int \<Rightarrow> string \<Rightarrow> state \<Rightarrow> (exn + url list) \<times> state" where
  "fetch_image_urls w query num_images resolution s =
     fetch_pages w query num_images resolution [1..num_images div 80 + 1] [] s"

section \<open>The Fetch Images button (lines 99-127)\<close>

text \<open>The two pictographs of the page's texts, as the bytes of their UTF-8 encoding.\<close>

definition party_popper :: string where
  "party_popper = [CHR 0xF0, CHR 0x9F, CHR 0x8E, CHR 0x89]"

definition inbox_tray :: string where
  "inbox_tray = [CHR 0xF0, CHR 0x9F, CHR 0x93, CHR 0xA5]"

definition MAX_DISPLAY :: nat where
  "MAX_DISPLAY = 20"

text \<open>The block under the spinner, lines 103-107.\<close>

definition fetching ::
  "world \<Rightarrow> string \<Rightarrow> int \<Rightarrow> string \<Rightarrow> bool \<Rightarrow> state \<Rightarrow> (exn + url list) \<times> state" where
  "fetching w query num_images resolution ai_filter s =
     (case fetch_image_urls w query num_images resolution
             (display (Spinner ''Fetching images...'') s) of
        (Inl e, s1) \<Rightarrow> (Inl e, s1)
      | (Inr image_urls, s1) \<Rightarrow>
          if ai_filter then filter_images w image_urls query s1 else (Inr image_urls, s1))"

text \<open>The loop of lines 115-117: picture \<open>i\<close> goes to column \<^verbatim>\<open>i % len(cols)\<close>.\<close>

fun show_images :: "nat \<Rightarrow> (nat \<times> url) list \<Rightarrow> state \<Rightarrow> state" where
  "show_images ncols [] s = s"
| "show_images ncols ((i, url) # rest) s =
     show_images ncols rest (display (Image (i mod ncols) url) s)"

text \<open>Lines 110-127, run when \<^verbatim>\<open>image_urls\<close> is not empty.\<close>

definition show_results ::
  "world \<Rightarrow> string \<Rightarrow> url list \<Rightarrow> state \<Rightarrow> (exn + unit) \<times> state" where
  "show_results w query image_urls s =
     (let s1 = display (Success (''Fetched '' @ str_nat (length image_urls) @
                  '' images successfully! '' @ party_popper)) s;
          ncols = min 5 (length image_urls);
          s2 = display (Columns ncols) s1;
          s3 = show_images ncols (enumerate 0 (take MAX_DISPLAY image_urls)) s2;
          s4 = display (Write (''Showing '' @ str_nat (min (length image_urls) MAX_DISPLAY) @
                  '' out of '' @ str_nat (length image_urls) @ '' images.'')) s3
      in case download_images_as_zip w image_urls s4 of
           (Inl e, s5) \<Rightarrow> (Inl e, s5)
         | (Inr zip_buffer, s5) \<Rightarrow>
             (Inr (),
              display (Download_button (inbox_tray @ '' Download All Images as ZIP'') zip_buffer
                 (query @ ''_images.zip'') ''application/zip'') s5))"

definition fetch_button ::
  "world \<Rightarrow> string \<Rightarrow> int \<Rightarrow> string \<Rightarrow> bool \<Rightarrow> state \<Rightarrow> (exn + unit) \<times> state" where
  "fetch_button w query num_images resolution ai_filter s =
     (if query = [] then (Inr (), display (Sidebar_error ''Please enter a keyword.'') s)
      else
        (case fetching w query num_images resolution ai_filter s of
           (Inl e, s1) \<Rightarrow> (Inl e, s1)
         | (Inr image_urls, s1) \<Rightarrow>
             if image_urls \<noteq> [] then show_results w query image_urls s1 else (Inr (), s1)))"

section \<open>What a run is measured against\<close>

text \<open>
  The definitions of this section are not code of app.py: they name what the statements
  below speak about. Requests are numbered in the order the program sends them, from 0.

  \<open>outcome w emb (t, url)\<close> is what the model makes of the image that request number
  \<open>t\<close>, a GET of \<open>url\<close>, brings: its similarity to the query whose embedding is
  \<open>emb\<close>, or the exception raised on the way. \<open>passes\<close> is the threshold of line 65 on it, and \<open>processing_error\<close> the
  message line 68 shows for it.

  \<open>downloaded w base (i, url)\<close> is the member that download number \<open>i\<close> contributes
  when the first download is request number \<open>base\<close>: the response's bytes under the name
  \<^verbatim>\<open>image_{i+1}.jpg\<close> when the GET returned with status 200, and nothing otherwise.
  \<open>download_error\<close> is the message line 83 shows for it.

  \<open>int_of_str\<close> reads a decimal numeral back; it shows that \<open>str_nat\<close> is injective.
\<close>

definition outcome :: "world \<Rightarrow> embedding \<Rightarrow> nat \<times> url \<Rightarrow> exn + real" where
  "outcome w emb tu =
     (case requests_get w (fst tu) (Get (snd tu)) of
        Inl e \<Rightarrow> Inl e
      | Inr response \<Rightarrow> similarity w emb (content response))"

definition passes :: "world \<Rightarrow> embedding \<Rightarrow> nat \<times> url \<Rightarrow> bool" where
  "passes w emb tu = (case outcome w emb tu of Inl e \<Rightarrow> False | Inr sim \<Rightarrow> 0.2 < sim)"

definition processing_error :: "world \<Rightarrow> embedding \<Rightarrow> nat \<times> url \<Rightarrow> ui_event option" where
  "processing_error w emb tu =
     (case outcome w emb tu of
        Inl e \<Rightarrow> Some (St_error (''Error processing image: '' @ str_exn e))
      | Inr sim \<Rightarrow> None)"

definition downloaded :: "world \<Rightarrow> nat \<Rightarrow> nat \<times> url \<Rightarrow> (string \<times> bytes) option" where
  "downloaded w base iu =
     (case requests_get w (base + fst iu) (Get (snd iu)) of
        Inl e \<Rightarrow> None
      | Inr response \<Rightarrow>
          if status_code response = 200 then Some (image_name (fst iu), content response)
          else None)"

definition download_error :: "world \<Rightarrow> nat \<Rightarrow> nat \<times> url \<Rightarrow> ui_event option" where
  "download_error w base iu =
     (case requests_get w (base + fst iu) (Get (snd iu)) of
        Inl e \<Rightarrow> Some (St_error (''Error downloading image '' @ str_nat (fst iu + 1) @ '': '' @ str_exn e))
      | Inr response \<Rightarrow> None)"

definition int_of_str :: "string \<Rightarrow> nat" where
  "int_of_str cs = foldl (\<lambda>a c. 10 * a + (of_char c - 48)) 0 cs"

text \<open>
  For \<open>fetch_image_urls\<close>: \<open>run_requests s s'\<close> are the requests sent between the states
  \<open>s\<close> and \<open>s'\<close>, each with its number. \<open>page_photos w (t, r)\<close> are the photos that
  request brings: those of a response with status 200 whose JSON could be read, and none
  otherwise. \<open>paginated w query n c pages trs\<close> says of a run \<open>trs\<close> that starts with
  \<open>c\<close> URLs collected and \<open>pages\<close> still to request: every request is sent while fewer
  than \<open>n\<close> URLs are collected, it asks for the next page of \<open>pages\<close>, with
  \<^verbatim>\<open>per_page\<close> the minimum of 80 and what is still missing, and the photos it brings
  are counted for the next one.

  \<open>spec_size_key\<close> is the table of claim C8 as the claim words it, and \<open>src_url k img\<close>
  the URL of photo \<open>img\<close> under the key \<open>k\<close>, if it has one.

  \<open>thumbnails\<close> picks the pictures out of what the page shows, each with its column.
\<close>

definition page_photos :: "world \<Rightarrow> nat \<times> request \<Rightarrow> photo list" where
  "page_photos w tr =
     (case requests_get w (fst tr) (snd tr) of
        Inl e \<Rightarrow> []
      | Inr response \<Rightarrow>
          if status_code response = 200 then
            (case json response of Inl e \<Rightarrow> [] | Inr results \<Rightarrow> get_photos results)
          else [])"

definition run_requests :: "state \<Rightarrow> state \<Rightarrow> (nat \<times> request) list" where
  "run_requests s s' = drop (length (sent s)) (enumerate 0 (sent s'))"

fun paginated :: "world \<Rightarrow> string \<Rightarrow> int \<Rightarrow> nat \<Rightarrow> int list \<Rightarrow> (nat \<times> request) list \<Rightarrow> bool" where
  "paginated w query n c pages [] = True"
| "paginated w query n c [] (tr # trs) = False"
| "paginated w query n c (page # pages) (tr # trs) =
     (int c < n \<and> snd tr = Search query (min 80 (n - int c)) page \<and>
      paginated w query n (c + length (page_photos w tr)) pages trs)"

definition spec_size_key :: "string \<Rightarrow> string" where
  "spec_size_key resolution =
     (if resolution = ''640x480'' then ''small''
      else if resolution = ''1280x720'' then ''medium''
      else if resolution = ''1920x1080'' then ''large''
      else ''original'')"

definition src_url :: "string \<Rightarrow> photo \<Rightarrow> url option" where
  "src_url k img = (case img ''src'' of None \<Rightarrow> None | Some src \<Rightarrow> src k)"

fun thumbnails :: "ui_event list \<Rightarrow> (nat \<times> url) list" where
  "thumbnails [] = []"
| "thumbnails (Image c u # evs) = (c, u) # thumbnails evs"
| "thumbnails (ev # evs) = thumbnails evs"

section \<open>A small world to run the program in\<close>

text \<open>
  The photo API has three photos \<open>a\<close>, \<open>b\<close> and \<open>c\<close> on page 1 of a search, two more,
  \<open>d\<close> and \<open>e\<close>, on page 2 of the search for \<open>cat\<close>, and answers every other page with
  status 429; the search for \<open>sky\<close> has 25 photos, named \<open>0\<close> to \<open>24\<close>, on page 1.
  The images \<open>a_s\<close> and \<open>b_s\<close> download with status 200, \<open>c_s\<close> answers 404 (with a
  body), every other URL times out. The model scores the three 0.3, 0.9 and 0.1, and
  its text encoder refuses a keyword of more than 75 characters, with the message of
  \<^verbatim>\<open>clip.tokenize\<close> (the characters stand in for the tokens).
\<close>

definition example_photo :: "string \<Rightarrow> photo" where
  "example_photo n =
     [''src'' \<mapsto> [''small'' \<mapsto> n @ ''_s'', ''medium'' \<mapsto> n @ ''_m'',
                 ''large'' \<mapsto> n @ ''_l'', ''original'' \<mapsto> n @ ''_o'']]"

definition example_get :: "url \<Rightarrow> exn + response" where
  "example_get u =
     (if u = ''a_s'' then Inr \<lparr>status_code = 200, content = ''A'', json = Inl (Exception ''no JSON'')\<rparr>
      else if u = ''b_s'' then Inr \<lparr>status_code = 200, content = ''B'', json = Inl (Exception ''no JSON'')\<rparr>
      else if u = ''c_s'' then Inr \<lparr>status_code = 404, content = ''C'', json = Inl (Exception ''no JSON'')\<rparr>
      else Inl (Exception ''timed out''))"

definition example_search :: "string \<Rightarrow> int \<Rightarrow> int \<Rightarrow> exn + response" where
  "example_search q per_page page =
     (if page = 1 \<and> q = ''sky'' then
        Inr \<lparr>status_code = 200, content = [],
             json = Inr [''photos'' \<mapsto>
               take (nat per_page) (map (\<lambda>i. example_photo (str_nat i)) [0..<25])]\<rparr>
      else if page = 1 then
        Inr \<lparr>status_code = 200, content = [],
             json = Inr [''photos'' \<mapsto>
               take (nat per_page) [example_photo ''a'', example_photo ''b'', example_photo ''c'']]\<rparr>
      else if page = 2 \<and> q = ''cat'' then
        Inr \<lparr>status_code = 200, content = [],
             json = Inr [''photos'' \<mapsto>
               take (nat per_page) [example_photo ''d'', example_photo ''e'']]\<rparr>
      else Inr \<lparr>status_code = 429, content = [], json = Inl (Exception ''no JSON'')\<rparr>)"

definition example_world :: world where
  "example_world =
     \<lparr>requests_get = (\<lambda>t r. case r of Get u \<Rightarrow> example_get u
                                    | Search q per_page page \<Rightarrow> example_search q per_page page),
      encode_text = (\<lambda>q. if 75 < length q
                          then Inl (Exception (''Input '' @ q @ '' is too long for context length 77''))
                          else Inr [1, 0]),
      similarity = (\<lambda>emb img. if img = ''A'' then Inr 0.3 else if img = ''B'' then Inr 0.9
                               else if img = ''C'' then Inr 0.1 else Inl (Exception ''no image'')),
      archive_length = (\<lambda>ms. 22 + length ms)\<rparr>"

definition start :: state where
  "start = \<lparr>sent = [], shown = [], encoded = [], archives = 0\<rparr>"

section \<open>Decimal numerals and member names\<close>

lemma int_of_str_digit: "d < 10 \<Longrightarrow> (of_char (digit_chr d) :: nat) = 48 + d"
  by (simp add: digit_chr_def)

lemma int_of_str_str_nat: "int_of_str (str_nat n) = n"
proof (induction n rule: str_nat.induct)
  case (1 n)
  show ?case
  proof (cases "n < 10")
    case True
    then show ?thesis
      by (subst str_nat.simps) (simp add: int_of_str_def int_of_str_digit)
  next
    case False
    with 1 have "int_of_str (str_nat (n div 10)) = n div 10" by simp
    with False show ?thesis
      by (subst str_nat.simps) (simp add: int_of_str_def int_of_str_digit)
  qed
qed

lemma str_nat_inj: "str_nat m = str_nat n \<Longrightarrow> m = n"
  by (metis int_of_str_str_nat)

lemma image_name_inj: "inj image_name"
  by (auto simp: inj_on_def image_name_def dest: str_nat_inj)

section \<open>The two loops over image URLs, in closed form\<close>

text \<open>
  Each loop sends one GET per URL, whatever the earlier ones did, so the \<open>i\<close>-th URL is
  fetched by request number \<open>length (sent s) + i\<close>. The accumulator and the state are
  generalised for the induction over the URLs.
\<close>

lemma filter_loop_run:
  "filter_loop w emb urls acc s =
     (Inr (acc @ map snd (filter (passes w emb) (enumerate (length (sent s)) urls))),
      s\<lparr>sent := sent s @ map Get urls,
        shown := shown s @ List.map_filter (processing_error w emb) (enumerate (length (sent s)) urls)\<rparr>)"
proof (induction urls arbitrary: acc s)
  case Nil
  show ?case by simp
next
  case (Cons url rest)
  show ?case
    by (simp add: Cons.IH try_except_def filter_try_def http_get_def st_error_def display_def
        passes_def processing_error_def outcome_def split: sum.splits)
qed

lemma filter_images_run:
  "encode_text w query = Inr emb \<Longrightarrow>
   filter_images w urls query s =
     (Inr (map snd (filter (passes w emb) (enumerate (length (sent s)) urls))),
      s\<lparr>sent := sent s @ map Get urls,
        shown := shown s @ List.map_filter (processing_error w emb) (enumerate (length (sent s)) urls),
        encoded := encoded s @ [query]\<rparr>)"
  by (simp add: filter_images_def filter_loop_run)

text \<open>
  The one exception that leaves \<open>filter_images\<close> is the text encoder's, raised before any
  URL is requested.
\<close>

lemma filter_images_encoder_raises:
  "encode_text w query = Inl e \<Longrightarrow>
   filter_images w urls query s = (Inl e, s\<lparr>encoded := encoded s @ [query]\<rparr>)"
  by (simp add: filter_images_def)

lemma filter_images_returns_iff:
  "(\<exists>out. fst (filter_images w urls query s) = Inr out) \<longleftrightarrow>
   (\<exists>emb. encode_text w query = Inr emb)"
  by (cases "encode_text w query") (simp_all add: filter_images_def filter_loop_run)

lemma download_loop_run:
  "length (sent s) = base + i \<Longrightarrow>
   download_loop w (enumerate i urls) zf s =
     (Inr (zf\<lparr>members := members zf @ List.map_filter (downloaded w base) (enumerate i urls)\<rparr>),
      s\<lparr>sent := sent s @ map Get urls,
        shown := shown s @ List.map_filter (download_error w base) (enumerate i urls)\<rparr>)"
proof (induction urls arbitrary: i zf s)
  case Nil
  show ?case by simp
next
  case (Cons url rest)
  have *: "length (sent (s\<lparr>sent := sent s @ [Get url]\<rparr>)) = base + Suc i"
       "\<And>ev. length (sent (s\<lparr>sent := sent s @ [Get url], shown := ev\<rparr>)) = base + Suc i"
    using Cons.prems by simp_all
  show ?case using Cons.prems
    by (simp add: Cons.IH * try_except_def download_try_def http_get_def st_error_def display_def
        downloaded_def download_error_def writestr_def split: sum.splits)
qed

lemma download_images_as_zip_run:
  "download_images_as_zip w urls s =
     (Inr \<lparr>members = List.map_filter (downloaded w (length (sent s))) (enumerate 0 urls),
           central_directory = True, tell = 0\<rparr>,
      s\<lparr>sent := sent s @ map Get urls,
        shown := shown s @ List.map_filter (download_error w (length (sent s))) (enumerate 0 urls),
        archives := archives s + 1\<rparr>)"
  by (simp add: download_images_as_zip_def download_loop_run [where base = "length (sent s)"]
      seek_def close_zip_def)

lemmas example_defs =
  example_world_def example_get_def example_search_def example_photo_def start_def

section \<open>filter\_images filters, it does not rank\<close>

lemma subseq_map_snd_enumerate: "subseq (map snd (filter P (enumerate n xs))) xs"
proof -
  have "subseq (map snd (filter P (enumerate n xs))) (map snd (enumerate n xs))"
    by (intro subseq_map subseq_filter_left)
  then show ?thesis by simp
qed

lemma filter_length_all:
  "length (filter P xs) = length xs \<Longrightarrow> list_all P xs"
proof (rule ccontr)
  assume len: "length (filter P xs) = length xs" and "\<not> list_all P xs"
  then obtain x where "x \<in> set xs" "\<not> P x" by (auto simp: list_all_iff)
  then have "length (filter P xs) < length xs" by (rule length_filter_less)
  with len show False by simp
qed

lemma mset_kept_iff:
  "mset (map snd (filter P (enumerate n xs))) = mset xs \<longleftrightarrow> list_all P (enumerate n xs)"
proof
  assume "mset (map snd (filter P (enumerate n xs))) = mset xs"
  then have "length (map snd (filter P (enumerate n xs))) = length xs"
    by (rule mset_eq_length)
  then have "length (filter P (enumerate n xs)) = length (enumerate n xs)" by simp
  then show "list_all P (enumerate n xs)" by (rule filter_length_all)
next
  assume "list_all P (enumerate n xs)"
  then have "filter P (enumerate n xs) = enumerate n xs" by (simp add: list_all_iff)
  then show "mset (map snd (filter P (enumerate n xs))) = mset xs" by simp
qed

text \<open>
  Claim C1, as amended. The claim reads: with AI filtering the results are re-ranked, the
  list \<open>filter_images\<close> returns being a permutation of its input ordered by the model's
  score. The code filters instead. What holds, for every query the text encoder accepts:
  \<open>filter_images\<close> returns a list, which is a subsequence of the input, so the URLs it
  keeps stand in their input order, whatever their scores; it is a permutation of the
  input exactly when every image passes the threshold of 0.2, and then it is the input
  itself.
\<close>

theorem filter_images_keeps_order:
  assumes "encode_text w query = Inr emb"
  shows "\<exists>out. fst (filter_images w urls query s) = Inr out \<and> subseq out urls \<and>
     (mset out = mset urls \<longleftrightarrow> list_all (passes w emb) (enumerate (length (sent s)) urls)) \<and>
     (mset out = mset urls \<longleftrightarrow> out = urls)"
proof -
  let ?out = "map snd (filter (passes w emb) (enumerate (length (sent s)) urls))"
  have 1: "fst (filter_images w urls query s) = Inr ?out"
    using assms by (simp add: filter_images_run)
  have 2: "subseq ?out urls" by (rule subseq_map_snd_enumerate)
  have 3: "mset ?out = mset urls \<longleftrightarrow> list_all (passes w emb) (enumerate (length (sent s)) urls)"
    by (rule mset_kept_iff)
  have 4: "mset ?out = mset urls \<longleftrightarrow> ?out = urls"
  proof
    assume "mset ?out = mset urls"
    with 3 have "list_all (passes w emb) (enumerate (length (sent s)) urls)" by blast
    then have "filter (passes w emb) (enumerate (length (sent s)) urls) = enumerate (length (sent s)) urls"
      by (simp add: list_all_iff)
    then show "?out = urls" by simp
  qed simp
  from 1 2 3 4 show ?thesis by blast
qed

text \<open>Both images pass: the input comes back as it went in, the higher score first or not.\<close>

theorem filter_images_keeps_order_witness:
  "encode_text example_world ''cat'' = Inr [1, 0] \<and>
   (\<exists>out. fst (filter_images example_world [''b_s'', ''a_s''] ''cat'' start) = Inr out \<and>
     subseq out [''b_s'', ''a_s''] \<and> mset out = mset [''b_s'', ''a_s''] \<and> out = [''b_s'', ''a_s''])"
proof -
  have enc: "encode_text example_world ''cat'' = Inr [1, 0]"
    by (simp add: example_defs)
  have "list_all (passes example_world [1, 0]) (enumerate (length (sent start)) [''b_s'', ''a_s''])"
    by (simp add: passes_def outcome_def example_defs)
  with filter_images_keeps_order [OF enc, of "[''b_s'', ''a_s'']" start] enc
  show ?thesis by auto
qed

text \<open>
  Claim C1 as stated fails on four URLs with scores 0.9, 0.3, 0.1 and 0.9: the third is
  dropped, so the result is no permutation of the input, and the three that stay keep
  their input order, which is neither ascending nor descending in the score.
\<close>

theorem filter_images_reranks_counterexample:
  "fst (filter_images example_world [''b_s'', ''a_s'', ''c_s'', ''b_s''] ''cat'' start) =
     Inr [''b_s'', ''a_s'', ''b_s''] \<and>
   mset [''b_s'', ''a_s'', ''b_s''] \<noteq> mset [''b_s'', ''a_s'', ''c_s'', ''b_s''] \<and>
   map (outcome example_world [1, 0]) (enumerate 0 [''b_s'', ''a_s'', ''c_s'', ''b_s'']) =
     [Inr 0.9, Inr 0.3, Inr 0.1, Inr 0.9]"
  by (simp add: filter_images_def try_except_def filter_try_def http_get_def st_error_def
      display_def outcome_def example_defs)

text \<open>
  Claim C2. For every list of URLs and every query, given the scores of the model (the
  text encoder has returned the query's embedding), \<open>filter_images\<close> returns exactly the
  input URLs whose image the model scores strictly above 0.2, in their input order: the
  result is the input with the other positions removed, and so a subsequence of it. A
  URL whose image raised has no score and is not returned.
\<close>

theorem filter_images_threshold:
  assumes "encode_text w query = Inr emb"
  shows "fst (filter_images w urls query s) =
     Inr (map snd (filter (\<lambda>tu. case outcome w emb tu of Inl e \<Rightarrow> False | Inr sim \<Rightarrow> 0.2 < sim)
                     (enumerate (length (sent s)) urls))) \<and>
   subseq (map snd (filter (\<lambda>tu. case outcome w emb tu of Inl e \<Rightarrow> False | Inr sim \<Rightarrow> 0.2 < sim)
                     (enumerate (length (sent s)) urls))) urls"
proof -
  have "passes w emb = (\<lambda>tu. case outcome w emb tu of Inl e \<Rightarrow> False | Inr sim \<Rightarrow> 0.2 < sim)"
    by (rule ext) (simp add: passes_def)
  then show ?thesis
    using filter_images_run [OF assms, of urls s] subseq_map_snd_enumerate [of "passes w emb"]
    by simp
qed

theorem filter_images_threshold_witness:
  "encode_text example_world ''cat'' = Inr [1, 0] \<and>
   fst (filter_images example_world [''c_s'', ''a_s'', ''zzz'', ''b_s'', ''a_s''] ''cat'' start) =
     Inr [''a_s'', ''b_s'', ''a_s''] \<and>
   subseq [''a_s'', ''b_s'', ''a_s''] [''c_s'', ''a_s'', ''zzz'', ''b_s'', ''a_s'']"
proof -
  have enc: "encode_text example_world ''cat'' = Inr [1, 0]"
    by (simp add: example_defs)
  from filter_images_threshold [OF enc, of "[''c_s'', ''a_s'', ''zzz'', ''b_s'', ''a_s'']" start] enc
  show ?thesis by (simp add: outcome_def example_defs)
qed

text \<open>
  A keyword of 76 characters is too long for the example's text encoder: \<open>filter_images\<close>
  raises before it requests any image.
\<close>

lemma filter_images_long_keyword:
  "filter_images example_world [''a_s'', ''b_s''] (replicate 76 CHR ''a'') start =
     (Inl (Exception (''Input '' @ replicate 76 CHR ''a'' @ '' is too long for context length 77'')),
      start\<lparr>encoded := [replicate 76 CHR ''a'']\<rparr>)"
  by (simp add: filter_images_def example_world_def start_def)

section \<open>The archive\<close>

lemma distinct_names:
  "distinct (map fst (List.map_filter (downloaded w base) (enumerate i urls)))"
proof -
  let ?is = "map fst (filter (\<lambda>iu. downloaded w base iu \<noteq> None) (enumerate i urls))"
  have "map fst (List.map_filter (downloaded w base) (enumerate i urls)) = map image_name ?is"
    by (induction urls arbitrary: i) (auto simp: downloaded_def split: sum.splits)
  moreover have "distinct ?is"
    by (rule distinct_map_filter) simp
  moreover have "inj_on image_name (set ?is)"
    using image_name_inj by (auto simp: inj_on_def)
  ultimately show ?thesis
    by (simp only: distinct_map)
qed

text \<open>
  Claim C5. For every list of URLs the function returns a finished archive that holds,
  for each index \<open>i\<close> whose GET returned with status 200, the member
  \<^verbatim>\<open>image_{i+1}.jpg\<close> with that response's bytes, in the order of the indices, and
  nothing else. The name depends on \<open>i\<close> alone, so a download that failed leaves its
  number unused, and no name occurs twice.
\<close>

theorem download_images_as_zip_members:
  "\<exists>zf. fst (download_images_as_zip w urls s) = Inr zf \<and> central_directory zf \<and>
     members zf = List.map_filter (downloaded w (length (sent s))) (enumerate 0 urls) \<and>
     distinct (map fst (members zf))"
  by (simp add: download_images_as_zip_run distinct_names)

theorem download_images_as_zip_members_witness:
  "\<exists>zf. fst (download_images_as_zip example_world [''a_s'', ''c_s'', ''zzz'', ''b_s''] start) = Inr zf \<and>
     central_directory zf \<and>
     members zf = [(''image_1.jpg'', ''A''), (''image_4.jpg'', ''B'')] \<and>
     distinct (map fst (members zf))"
proof -
  have "fst (download_images_as_zip example_world [''a_s'', ''c_s'', ''zzz'', ''b_s''] start) =
          Inr \<lparr>members = [(''image_1.jpg'', ''A''), (''image_4.jpg'', ''B'')],
                central_directory = True, tell = 0\<rparr>"
    by code_simp
  moreover obtain zf where
    "fst (download_images_as_zip example_world [''a_s'', ''c_s'', ''zzz'', ''b_s''] start) = Inr zf"
    "central_directory zf" "distinct (map fst (members zf))"
    using download_images_as_zip_members [of example_world "[''a_s'', ''c_s'', ''zzz'', ''b_s'']" start]
    by blast
  ultimately show ?thesis by simp
qed

text \<open>
  Claim C6. In both loops an exception raised for one URL is reported with
  \<^verbatim>\<open>st.error\<close> and nothing more: the function returns (\<open>Inr\<close>), every URL of the list
  has been requested, in order, the messages shown are those of the URLs that raised, and
  such a URL adds nothing to the result. For \<open>filter_images\<close> the loop is reached when
  the text encoder of lines 51-52 has returned.
\<close>

theorem per_url_exceptions_reported:
  "(encode_text w query = Inr emb \<longrightarrow>
    filter_images w urls query s =
     (Inr (map snd (filter (passes w emb) (enumerate (length (sent s)) urls))),
      s\<lparr>sent := sent s @ map Get urls,
        shown := shown s @
          List.map_filter (processing_error w emb) (enumerate (length (sent s)) urls),
        encoded := encoded s @ [query]\<rparr>)) \<and>
   download_images_as_zip w urls s =
     (Inr \<lparr>members = List.map_filter (downloaded w (length (sent s))) (enumerate 0 urls),
           central_directory = True, tell = 0\<rparr>,
      s\<lparr>sent := sent s @ map Get urls,
        shown := shown s @
          List.map_filter (download_error w (length (sent s))) (enumerate 0 urls),
        archives := archives s + 1\<rparr>)"
  by (simp add: filter_images_run download_images_as_zip_run)

theorem per_url_exceptions_reported_witness:
  "encode_text example_world ''cat'' = Inr [1, 0] \<and>
   filter_images example_world [''zzz'', ''a_s'', ''yyy'', ''c_s''] ''cat'' start =
     (Inr [''a_s''],
      \<lparr>sent = [Get ''zzz'', Get ''a_s'', Get ''yyy'', Get ''c_s''],
       shown = [St_error ''Error processing image: timed out'',
                St_error ''Error processing image: timed out''],
       encoded = [''cat''], archives = 0\<rparr>) \<and>
   download_images_as_zip example_world [''zzz'', ''a_s'', ''yyy'', ''c_s''] start =
     (Inr \<lparr>members = [(''image_2.jpg'', ''A'')], central_directory = True, tell = 0\<rparr>,
      \<lparr>sent = [Get ''zzz'', Get ''a_s'', Get ''yyy'', Get ''c_s''],
       shown = [St_error ''Error downloading image 1: timed out'',
                St_error ''Error downloading image 3: timed out''],
       encoded = [], archives = 1\<rparr>)"
proof -
  let ?urls = "[''zzz'', ''a_s'', ''yyy'', ''c_s'']"
  have enc: "encode_text example_world ''cat'' = Inr [1, 0]"
    by (simp add: example_defs)
  have "map snd (filter (passes example_world [1, 0]) (enumerate (length (sent start)) ?urls)) = [''a_s'']"
    and "List.map_filter (processing_error example_world [1, 0]) (enumerate (length (sent start)) ?urls) =
          [St_error ''Error processing image: timed out'', St_error ''Error processing image: timed out'']"
    and "List.map_filter (downloaded example_world (length (sent start))) (enumerate 0 ?urls) =
          [(''image_2.jpg'', ''A'')]"
    and "List.map_filter (download_error example_world (length (sent start))) (enumerate 0 ?urls) =
          [St_error ''Error downloading image 1: timed out'',
           St_error ''Error downloading image 3: timed out'']"
    by code_simp+
  with per_url_exceptions_reported [of example_world "''cat''" "[1, 0]" ?urls start] enc
  show ?thesis by (simp add: start_def)
qed

text \<open>
  Claim C10. \<open>download_images_as_zip\<close> returns for every input; the buffer it returns is
  a finished archive whose position is 0; and when every download raised or returned a
  status other than 200, the archive has no members.
\<close>

theorem download_images_as_zip_total:
  "\<exists>zf. fst (download_images_as_zip w urls s) = Inr zf \<and> tell zf = 0 \<and> central_directory zf \<and>
     (list_all (\<lambda>iu. case requests_get w (length (sent s) + fst iu) (Get (snd iu)) of
                        Inl e \<Rightarrow> True
                      | Inr response \<Rightarrow> status_code response \<noteq> 200) (enumerate 0 urls)
      \<longrightarrow> members zf = [])"
proof -
  have "List.map_filter (downloaded w base) (enumerate i urls) = []"
    if "list_all (\<lambda>iu. case requests_get w (base + fst iu) (Get (snd iu)) of
                          Inl e \<Rightarrow> True
                        | Inr response \<Rightarrow> status_code response \<noteq> 200) (enumerate i urls)"
    for base i
    using that by (induction urls arbitrary: i) (auto simp: downloaded_def split: sum.splits)
  then show ?thesis by (simp add: download_images_as_zip_run)
qed

theorem download_images_as_zip_total_witness:
  "\<exists>zf. fst (download_images_as_zip example_world [''zzz'', ''c_s''] start) = Inr zf \<and>
     tell zf = 0 \<and> central_directory zf \<and> members zf = []"
proof -
  have "list_all (\<lambda>iu. case requests_get example_world (length (sent start) + fst iu) (Get (snd iu)) of
                         Inl e \<Rightarrow> True
                       | Inr response \<Rightarrow> status_code response \<noteq> 200) (enumerate 0 [''zzz'', ''c_s''])"
    by (simp add: example_defs)
  with download_images_as_zip_total [of example_world "[''zzz'', ''c_s'']" start]
  show ?thesis by blast
qed

section \<open>The page loop of fetch\_image\_urls\<close>

lemma run_requests_eq:
  "sent s' = sent s @ reqs \<Longrightarrow> run_requests s s' = enumerate (length (sent s)) reqs"
  by (simp add: run_requests_def enumerate_append_eq)

lemma fetch_pages_cases [consumes 1, case_names raised failed bad_json key_error full more]:
  assumes run: "fetch_pages w query n resolution (page # pages) acc s = (r, s')"
  assumes raised: "\<And>e. requests_get w (length (sent s))
        (Search query (min 80 (n - int (length acc))) page) = Inl e \<Longrightarrow>
      r = Inl e \<Longrightarrow> sent s' = sent s @ [Search query (min 80 (n - int (length acc))) page] \<Longrightarrow>
      shown s' = shown s \<Longrightarrow> P"
  assumes failed: "\<And>response. requests_get w (length (sent s))
        (Search query (min 80 (n - int (length acc))) page) = Inr response \<Longrightarrow>
      status_code response \<noteq> 200 \<Longrightarrow> r = Inr [] \<Longrightarrow>
      sent s' = sent s @ [Search query (min 80 (n - int (length acc))) page] \<Longrightarrow>
      shown s' = shown s @ [St_error (''Failed to fetch images: '' @ str_int (status_code response))] \<Longrightarrow> P"
  assumes bad_json: "\<And>response e. requests_get w (length (sent s))
        (Search query (min 80 (n - int (length acc))) page) = Inr response \<Longrightarrow>
      status_code response = 200 \<Longrightarrow> json response = Inl e \<Longrightarrow> r = Inl e \<Longrightarrow>
      sent s' = sent s @ [Search query (min 80 (n - int (length acc))) page] \<Longrightarrow>
      shown s' = shown s \<Longrightarrow> P"
  assumes key_error: "\<And>response results e. requests_get w (length (sent s))
        (Search query (min 80 (n - int (length acc))) page) = Inr response \<Longrightarrow>
      status_code response = 200 \<Longrightarrow> json response = Inr results \<Longrightarrow>
      append_photos resolution (get_photos results) acc = Inl e \<Longrightarrow> r = Inl e \<Longrightarrow>
      sent s' = sent s @ [Search query (min 80 (n - int (length acc))) page] \<Longrightarrow>
      shown s' = shown s \<Longrightarrow> P"
  assumes full: "\<And>response results acc'. requests_get w (length (sent s))
        (Search query (min 80 (n - int (length acc))) page) = Inr response \<Longrightarrow>
      status_code response = 200 \<Longrightarrow> json response = Inr results \<Longrightarrow>
      append_photos resolution (get_photos results) acc = Inr acc' \<Longrightarrow>
      n \<le> int (length acc') \<Longrightarrow> r = Inr (slice_to n acc') \<Longrightarrow>
      sent s' = sent s @ [Search query (min 80 (n - int (length acc))) page] \<Longrightarrow>
      shown s' = shown s \<Longrightarrow> P"
  assumes more: "\<And>response results acc' s1. requests_get w (length (sent s))
        (Search query (min 80 (n - int (length acc))) page) = Inr response \<Longrightarrow>
      status_code response = 200 \<Longrightarrow> json response = Inr results \<Longrightarrow>
      append_photos resolution (get_photos results) acc = Inr acc' \<Longrightarrow>
      \<not> n \<le> int (length acc') \<Longrightarrow>
      sent s1 = sent s @ [Search query (min 80 (n - int (length acc))) page] \<Longrightarrow>
      shown s1 = shown s \<Longrightarrow>
      fetch_pages w query n resolution pages acc' s1 = (r, s') \<Longrightarrow> P"
  shows P
proof -
  let ?req = "Search query (min 80 (n - int (length acc))) page"
  let ?s1 = "s\<lparr>sent := sent s @ [?req]\<rparr>"
  show P
  proof (cases "requests_get w (length (sent s)) ?req")
    case (Inl e)
    with run have "r = Inl e" "s' = ?s1" by (simp_all add: http_get_def)
    with Inl show P by (intro raised [of e]) simp_all
  next
    case get: (Inr response)
    show P
    proof (cases "status_code response = 200")
      case False
      with run get have "r = Inr []"
        "s' = st_error (''Failed to fetch images: '' @ str_int (status_code response)) ?s1"
        by (simp_all add: http_get_def)
      with get False show P
        by (intro failed [of response]) (simp_all add: st_error_def display_def)
    next
      case ok: True
      show P
      proof (cases "json response")
        case (Inl e)
        with run get ok have "r = Inl e" "s' = ?s1" by (simp_all add: http_get_def)
        with get ok Inl show P by (intro bad_json [of response e]) simp_all
      next
        case js: (Inr results)
        show P
        proof (cases "append_photos resolution (get_photos results) acc")
          case (Inl e)
          with run get ok js have "r = Inl e" "s' = ?s1" by (simp_all add: http_get_def)
          with get ok js Inl show P by (intro key_error [of response results e]) simp_all
        next
          case app: (Inr acc')
          show P
          proof (cases "n \<le> int (length acc')")
            case True
            with run get ok js app have "r = Inr (slice_to n acc')" "s' = ?s1"
              by (simp_all add: http_get_def)
            with get ok js app True show P by (intro full [of response results acc']) simp_all
          next
            case False
            with run get ok js app
            have "fetch_pages w query n resolution pages acc' ?s1 = (r, s')"
              by (simp add: http_get_def)
            with get ok js app False show P
              by (intro more [of response results acc' ?s1]) simp_all
          qed
        qed
      qed
    qed
  qed
qed

lemma fetch_pages_sent:
  "fetch_pages w query n resolution pages acc s = (r, s') \<Longrightarrow> \<exists>reqs. sent s' = sent s @ reqs"
proof (induction pages arbitrary: acc s)
  case Nil
  then show ?case by simp
next
  case (Cons page pages)
  from Cons.prems show ?case
  proof (cases rule: fetch_pages_cases)
    case (more response results acc' s1)
    from Cons.IH [OF more(8)] more(6) show ?thesis by auto
  qed simp_all
qed

lemma fetch_pages_step:
  assumes "sent s1 = sent s @ [req]" "fetch_pages w query n resolution pages acc s1 = (r, s')"
  shows "run_requests s s' = (length (sent s), req) # run_requests s1 s'"
proof -
  from fetch_pages_sent [OF assms(2)] obtain reqs where "sent s' = sent s1 @ reqs" ..
  with assms(1) have "run_requests s1 s' = enumerate (Suc (length (sent s))) reqs"
    "run_requests s s' = enumerate (length (sent s)) (req # reqs)"
    by (simp_all add: run_requests_eq)
  then show ?thesis by simp
qed

lemma run_requests_single:
  "sent s' = sent s @ [req] \<Longrightarrow> run_requests s s' = [(length (sent s), req)]"
  by (simp add: run_requests_eq)

lemma run_requests_same: "run_requests s s = []"
  by (simp add: run_requests_def)

lemma append_photos_length:
  "append_photos resolution photos acc = Inr acc' \<Longrightarrow> length acc' = length acc + length photos"
  by (induction photos arbitrary: acc)
    (auto simp: append_photo_def append_src_def split: sum.splits if_splits)

lemma page_photos_ok:
  "requests_get w t req = Inr response \<Longrightarrow> status_code response = 200 \<Longrightarrow>
   json response = Inr results \<Longrightarrow> page_photos w (t, req) = get_photos results"
  by (simp add: page_photos_def)

lemma fetch_pages_paginated:
  "int (length acc) < n \<Longrightarrow> fetch_pages w query n resolution pages acc s = (r, s') \<Longrightarrow>
   paginated w query n (length acc) pages (run_requests s s')"
proof (induction pages arbitrary: acc s)
  case Nil
  then show ?case by (simp add: run_requests_same)
next
  case (Cons page pages)
  from Cons.prems(2) show ?case
  proof (cases rule: fetch_pages_cases)
    case (more response results acc' s1)
    have "paginated w query n (length acc') pages (run_requests s1 s')"
      using more by (intro Cons.IH) simp_all
    moreover have "length acc' = length acc + length (page_photos w (length (sent s),
        Search query (min 80 (n - int (length acc))) page))"
      using more by (simp add: append_photos_length page_photos_ok)
    ultimately show ?thesis
      using Cons.prems(1) more by (simp add: fetch_pages_step [OF more(6) more(8)])
  qed (simp_all add: Cons.prems(1) run_requests_single)
qed

lemma length_slice_to: "0 \<le> n \<Longrightarrow> int (length (slice_to n xs)) \<le> n"
  by (simp add: slice_to_def)

lemma fetch_pages_bound:
  "0 \<le> n \<Longrightarrow> fetch_pages w query n resolution pages acc s = (Inr urls, s') \<Longrightarrow>
   int (length urls) \<le> n"
proof (induction pages arbitrary: acc s)
  case Nil
  then show ?case by (auto simp: length_slice_to)
next
  case (Cons page pages)
  from Cons.prems(2) show ?case
  proof (cases rule: fetch_pages_cases)
    case (more response results acc' s1)
    with Cons.IH [OF Cons.prems(1)] show ?thesis by blast
  qed (use Cons.prems(1) in \<open>auto simp: length_slice_to\<close>)
qed

lemma paginated_length: "paginated w query n c pages trs \<Longrightarrow> length trs \<le> length pages"
  by (induction w query n c pages trs rule: paginated.induct) auto

lemma fetch_pages_complete:
  "fetch_pages w query n resolution pages acc s = (Inr urls, s') \<Longrightarrow> shown s' = shown s \<Longrightarrow>
   length (run_requests s s') = length pages \<or>
   n \<le> int (length acc + sum_list (map (\<lambda>tr. length (page_photos w tr)) (run_requests s s')))"
proof (induction pages arbitrary: acc s)
  case Nil
  then show ?case by (simp add: run_requests_same)
next
  case (Cons page pages)
  let ?req = "Search query (min 80 (n - int (length acc))) page"
  from Cons.prems(1) show ?case
  proof (cases rule: fetch_pages_cases)
    case (full response results acc')
    have "run_requests s s' = [(length (sent s), ?req)]"
      using full(7) by (rule run_requests_single)
    moreover have "page_photos w (length (sent s), ?req) = get_photos results"
      using full(1,2,3) by (rule page_photos_ok)
    moreover have "length acc' = length acc + length (get_photos results)"
      using full(4) by (rule append_photos_length)
    ultimately show ?thesis using full(5) by simp
  next
    case (more response results acc' s1)
    have step: "run_requests s s' = (length (sent s), ?req) # run_requests s1 s'"
      by (rule fetch_pages_step [OF more(6) more(8)])
    have photos: "page_photos w (length (sent s), ?req) = get_photos results"
      using more(1,2,3) by (rule page_photos_ok)
    have len: "length acc' = length acc + length (get_photos results)"
      using more(4) by (rule append_photos_length)
    from Cons.prems(2) more(7) have "shown s' = shown s1" by simp
    from Cons.IH [OF more(8) this]
    have "length (run_requests s1 s') = length pages \<or>
      n \<le> int (length acc' + sum_list (map (\<lambda>tr. length (page_photos w tr)) (run_requests s1 s')))" .
    then show ?thesis
    proof
      assume "length (run_requests s1 s') = length pages"
      then show ?thesis unfolding step by simp
    next
      assume "n \<le> int (length acc' +
        sum_list (map (\<lambda>tr. length (page_photos w tr)) (run_requests s1 s')))"
      then have "n \<le> int (length acc +
        sum_list (map (\<lambda>tr. length (page_photos w tr)) (run_requests s s')))"
        unfolding step by (simp add: photos len)
      then show ?thesis ..
    qed
  next
    case (failed response)
    with Cons.prems(2) show ?thesis by simp
  qed simp_all
qed

text \<open>
  Claim C4. For every query, every resolution and \<open>num_images \<ge> 1\<close>, the run of
  \<open>fetch_image_urls\<close> is paginated: its requests ask for the pages 1, 2, ... in turn, each
  with \<^verbatim>\<open>per_page\<close> the minimum of 80 and \<open>num_images\<close> less the number of URLs
  collected so far, and each is sent only while fewer than \<open>num_images\<close> URLs are
  collected; no more than \<open>num_images div 80 + 1\<close> requests are sent; a list that is
  returned has at most \<open>num_images\<close> URLs; and the loop does not stop before: a run that
  returns without having reported a failure has requested all \<open>num_images div 80 + 1\<close>
  pages or has collected \<open>num_images\<close> URLs or more.
\<close>

theorem fetch_image_urls_pagination:
  assumes "1 \<le> n"
  shows "paginated w query n 0 [1..n div 80 + 1]
           (run_requests s (snd (fetch_image_urls w query n resolution s))) \<and>
         length (run_requests s (snd (fetch_image_urls w query n resolution s))) \<le> nat (n div 80 + 1) \<and>
         (case fst (fetch_image_urls w query n resolution s) of
            Inl e \<Rightarrow> True
          | Inr urls \<Rightarrow>
              int (length urls) \<le> n \<and>
              (shown (snd (fetch_image_urls w query n resolution s)) = shown s \<longrightarrow>
               length (run_requests s (snd (fetch_image_urls w query n resolution s))) =
                 nat (n div 80 + 1) \<or>
               n \<le> int (sum_list (map (\<lambda>tr. length (page_photos w tr))
                      (run_requests s (snd (fetch_image_urls w query n resolution s)))))))"
proof -
  obtain r s' where run: "fetch_pages w query n resolution [1..n div 80 + 1] [] s = (r, s')"
    by (cases "fetch_pages w query n resolution [1..n div 80 + 1] [] s")
  from assms have "int (length ([] :: url list)) < n" by simp
  from fetch_pages_paginated [OF this run]
  have p: "paginated w query n 0 [1..n div 80 + 1] (run_requests s s')" by simp
  from paginated_length [OF p] have "length (run_requests s s') \<le> nat (n div 80 + 1)"
    by simp
  moreover have "int (length urls) \<le> n" if "r = Inr urls" for urls
    using fetch_pages_bound [of n w query resolution _ "[]" s urls s'] run that assms by simp
  moreover have "length (run_requests s s') = nat (n div 80 + 1) \<or>
      n \<le> int (sum_list (map (\<lambda>tr. length (page_photos w tr)) (run_requests s s')))"
    if "r = Inr urls" "shown s' = shown s" for urls
    using fetch_pages_complete [of w query n resolution "[1..n div 80 + 1]" "[]" s urls s'] run that
    by simp
  ultimately show ?thesis
    using p run by (simp add: fetch_image_urls_def split: sum.splits)
qed

text \<open>
  Asked for 80 images of \<open>cat\<close>, the program requests page 1 with \<^verbatim>\<open>per_page\<close> 80, gets
  three photos, requests page 2 with \<^verbatim>\<open>per_page\<close> 77, gets two, and stops: both pages
  have been requested.
\<close>

theorem fetch_image_urls_pagination_witness:
  "run_requests start (snd (fetch_image_urls example_world ''cat'' 80 ''640x480'' start)) =
     [(0, Search ''cat'' 80 1), (1, Search ''cat'' 77 2)] \<and>
   paginated example_world ''cat'' 80 0 [1..80 div 80 + 1]
     [(0, Search ''cat'' 80 1), (1, Search ''cat'' 77 2)] \<and>
   fst (fetch_image_urls example_world ''cat'' 80 ''640x480'' start) =
     Inr [''a_s'', ''b_s'', ''c_s'', ''d_s'', ''e_s''] \<and>
   shown (snd (fetch_image_urls example_world ''cat'' 80 ''640x480'' start)) = shown start"
proof -
  have "run_requests start (snd (fetch_image_urls example_world ''cat'' 80 ''640x480'' start)) =
          [(0, Search ''cat'' 80 1), (1, Search ''cat'' 77 2)]"
    and "fst (fetch_image_urls example_world ''cat'' 80 ''640x480'' start) =
          Inr [''a_s'', ''b_s'', ''c_s'', ''d_s'', ''e_s'']"
    and "shown (snd (fetch_image_urls example_world ''cat'' 80 ''640x480'' start)) = shown start"
    by code_simp+
  with fetch_image_urls_pagination [of 80 example_world "''cat''" start "''640x480''"]
  show ?thesis by simp
qed

lemma fetch_pages_failure:
  "fetch_pages w query n resolution pages acc s = (r, s') \<Longrightarrow>
   (t, req) \<in> set (run_requests s s') \<Longrightarrow>
   requests_get w t req = Inr response \<Longrightarrow> status_code response \<noteq> 200 \<Longrightarrow>
   r = Inr [] \<and>
   shown s' = shown s @ [St_error (''Failed to fetch images: '' @ str_int (status_code response))]"
proof (induction pages arbitrary: acc s)
  case Nil
  then show ?case by (simp add: run_requests_same)
next
  case (Cons page pages)
  from Cons.prems(1) show ?case
  proof (cases rule: fetch_pages_cases)
    case (more response' results acc' s1)
    from Cons.prems(2) have "(t, req) \<in> set (run_requests s1 s')"
      using more Cons.prems(3,4) by (auto simp: fetch_pages_step [OF more(6) more(8)])
    from Cons.IH [OF more(8) this Cons.prems(3,4)] more(7) show ?thesis by simp
  qed (use Cons.prems(2,3,4) in \<open>auto simp: run_requests_single\<close>)
qed

text \<open>
  Claim C3. If any request of the run got a response with a status other than 200, then
  \<open>fetch_image_urls\<close> has shown \<^verbatim>\<open>Failed to fetch images:\<close> with that status, as its
  only message, and returns the empty list, whatever the pages before had brought.
\<close>

theorem fetch_image_urls_failure:
  assumes "(t, req) \<in> set (run_requests s (snd (fetch_image_urls w query n resolution s)))"
    and "requests_get w t req = Inr response"
    and "status_code response \<noteq> 200"
  shows "fst (fetch_image_urls w query n resolution s) = Inr [] \<and>
         shown (snd (fetch_image_urls w query n resolution s)) =
           shown s @ [St_error (''Failed to fetch images: '' @ str_int (status_code response))]"
proof -
  obtain r s' where run: "fetch_pages w query n resolution [1..n div 80 + 1] [] s = (r, s')"
    by (cases "fetch_pages w query n resolution [1..n div 80 + 1] [] s")
  with assms(1) have "(t, req) \<in> set (run_requests s s')" by (simp add: fetch_image_urls_def)
  from fetch_pages_failure [OF run this assms(2,3)] run show ?thesis
    by (simp add: fetch_image_urls_def)
qed

text \<open>
  Asked for 80 images of \<open>dog\<close>, the program gets three photos from page 1 and status 429
  for page 2: it returns no URL at all.
\<close>

theorem fetch_image_urls_failure_witness:
  "length (page_photos example_world (0, Search ''dog'' 80 1)) = 3 \<and>
   fst (fetch_image_urls example_world ''dog'' 80 ''640x480'' start) = Inr [] \<and>
   shown (snd (fetch_image_urls example_world ''dog'' 80 ''640x480'' start)) =
     [St_error ''Failed to fetch images: 429'']"
proof -
  have "(1, Search ''dog'' 77 2) \<in>
          set (run_requests start (snd (fetch_image_urls example_world ''dog'' 80 ''640x480'' start)))"
    and "length (page_photos example_world (0, Search ''dog'' 80 1)) = 3"
    and "str_int 429 = ''429''"
    by code_simp+
  moreover have "requests_get example_world 1 (Search ''dog'' 77 2) =
          Inr \<lparr>status_code = 429, content = [], json = Inl (Exception ''no JSON'')\<rparr>"
    by (simp add: example_defs)
  ultimately show ?thesis
    using fetch_image_urls_failure [of 1 "Search ''dog'' 77 2" start example_world "''dog''" 80 "''640x480''"
         "\<lparr>status_code = 429, content = [], json = Inl (Exception ''no JSON'')\<rparr>"]
    by (simp add: start_def)
qed

lemma append_photos_urls:
  "append_photos resolution photos acc = Inr acc' \<Longrightarrow>
   map Some acc' = map Some acc @ map (src_url (spec_size_key resolution)) photos"
  by (induction photos arbitrary: acc)
    (auto simp: append_photo_def append_src_def photo_src_def subscript_def src_url_def
       spec_size_key_def split: sum.splits if_splits option.splits)

lemma slice_to_map: "slice_to n (map f xs) = map f (slice_to n xs)"
  by (simp add: slice_to_def take_map)

lemma fetch_pages_urls:
  "fetch_pages w query n resolution pages acc s = (Inr urls, s') \<Longrightarrow> shown s' = shown s \<Longrightarrow>
   map Some urls =
     slice_to n (map Some acc @
       concat (map (\<lambda>tr. map (src_url (spec_size_key resolution)) (page_photos w tr))
                 (run_requests s s')))"
proof (induction pages arbitrary: acc s)
  case Nil
  then show ?case by (auto simp: run_requests_same slice_to_map)
next
  case (Cons page pages)
  from Cons.prems(1) show ?case
  proof (cases rule: fetch_pages_cases)
    case (full response results acc')
    then show ?thesis
      by (simp add: run_requests_single page_photos_ok append_photos_urls [symmetric] slice_to_map)
  next
    case (more response results acc' s1)
    from Cons.prems(2) more(7) have "shown s' = shown s1" by simp
    from Cons.IH [OF more(8) this] more show ?thesis
      by (simp add: fetch_pages_step [OF more(6) more(8)] page_photos_ok append_photos_urls)
  qed (use Cons.prems(2) in simp_all)
qed

text \<open>
  Claim C8. When \<open>fetch_image_urls\<close> returns without having reported a failure, its list
  is made of the URLs of the photos the API returned, page after page and photo after
  photo, each taken under the key that the table \<open>spec_size_key\<close> gives for the
  resolution (\<^verbatim>\<open>small\<close> for 640x480, \<^verbatim>\<open>medium\<close> for 1280x720, \<^verbatim>\<open>large\<close> for 1920x1080,
  \<^verbatim>\<open>original\<close> for anything else), and cut to \<open>num_images\<close> by line 47.
\<close>

theorem fetch_image_urls_resolution:
  assumes "fetch_image_urls w query n resolution s = (Inr urls, s')"
    and "shown s' = shown s"
  shows "map Some urls =
     slice_to n (concat (map (\<lambda>tr. map (src_url (spec_size_key resolution)) (page_photos w tr))
                           (run_requests s s')))"
  using fetch_pages_urls [of w query n resolution _ "[]" s urls s'] assms
  by (simp add: fetch_image_urls_def)

text \<open>The resolution 1920x1080 picks the large URLs, the selectbox's "Original" the original ones.\<close>

theorem fetch_image_urls_resolution_witness:
  "fetch_image_urls example_world ''cat'' 4 ''1920x1080'' start =
     (Inr [''a_l'', ''b_l'', ''c_l''], start\<lparr>sent := [Search ''cat'' 4 1]\<rparr>) \<and>
   fetch_image_urls example_world ''cat'' 2 ''Original'' start =
     (Inr [''a_o'', ''b_o''], start\<lparr>sent := [Search ''cat'' 2 1]\<rparr>) \<and>
   map (src_url (spec_size_key ''1920x1080'')) (page_photos example_world (0, Search ''cat'' 4 1)) =
     [Some ''a_l'', Some ''b_l'', Some ''c_l'']"
proof -
  have run: "fetch_image_urls example_world ''cat'' 4 ''1920x1080'' start =
     (Inr [''a_l'', ''b_l'', ''c_l''], start\<lparr>sent := [Search ''cat'' 4 1]\<rparr>)"
    and "fetch_image_urls example_world ''cat'' 2 ''Original'' start =
     (Inr [''a_o'', ''b_o''], start\<lparr>sent := [Search ''cat'' 2 1]\<rparr>)"
    by code_simp+
  moreover have "run_requests start (start\<lparr>sent := [Search ''cat'' 4 1]\<rparr>) = [(0, Search ''cat'' 4 1)]"
    by code_simp
  moreover have "length (page_photos example_world (0, Search ''cat'' 4 1)) = 3"
    by code_simp
  moreover note fetch_image_urls_resolution [OF run]
  ultimately show ?thesis by (simp add: slice_to_def)
qed

section \<open>The Fetch Images button\<close>

text \<open>
  Claim C9. With the empty keyword the button shows \<^verbatim>\<open>Please enter a keyword.\<close> in the
  sidebar and does nothing else: no request is sent (neither to the API nor for an
  image), the text encoder of \<open>filter_images\<close> is not called, and no archive is opened.
\<close>

theorem fetch_button_empty_keyword:
  "fetch_button w [] n resolution ai_filter s =
     (Inr (), s\<lparr>shown := shown s @ [Sidebar_error ''Please enter a keyword.'']\<rparr>) \<and>
   sent (snd (fetch_button w [] n resolution ai_filter s)) = sent s \<and>
   encoded (snd (fetch_button w [] n resolution ai_filter s)) = encoded s \<and>
   archives (snd (fetch_button w [] n resolution ai_filter s)) = archives s"
  by (simp add: fetch_button_def display_def)

lemma show_images_run:
  "show_images ncols ius s = s\<lparr>shown := shown s @ map (\<lambda>(i, u). Image (i mod ncols) u) ius\<rparr>"
  by (induction ncols ius s rule: show_images.induct) (simp_all add: display_def)

lemma thumbnails_append: "thumbnails (xs @ ys) = thumbnails xs @ thumbnails ys"
  by (induction xs rule: thumbnails.induct) simp_all

lemma thumbnails_images:
  "thumbnails (map (\<lambda>(i, u). Image (f i) u) ius) = map (\<lambda>(i, u). (f i, u)) ius"
  by (induction ius) auto

lemma thumbnails_errors: "thumbnails (List.map_filter (download_error w base) ius) = []"
  by (induction ius) (auto simp: download_error_def split: sum.splits)

lemma download_button_run:
  "show_results w query urls s =
     (Inr (),
      s\<lparr>shown := shown s @
          [Success (''Fetched '' @ str_nat (length urls) @ '' images successfully! '' @ party_popper),
           Columns (min 5 (length urls))] @
          map (\<lambda>(i, u). Image (i mod min 5 (length urls)) u) (enumerate 0 (take 20 urls)) @
          [Write (''Showing '' @ str_nat (min (length urls) 20) @ '' out of '' @
                  str_nat (length urls) @ '' images.'')] @
          List.map_filter (download_error w (length (sent s))) (enumerate 0 urls) @
          [Download_button (inbox_tray @ '' Download All Images as ZIP'')
             \<lparr>members = List.map_filter (downloaded w (length (sent s))) (enumerate 0 urls),
              central_directory = True, tell = 0\<rparr>
             (query @ ''_images.zip'') ''application/zip''],
        sent := sent s @ map Get urls,
        archives := archives s + 1\<rparr>)"
  by (simp add: show_results_def Let_def show_images_run download_images_as_zip_run display_def
      MAX_DISPLAY_def)

text \<open>
  Claim C7. When the block under the spinner has yielded a list of \<open>n > 0\<close> URLs, the
  button shows the success message, \<open>min 5 n\<close> columns, the first \<open>min 20 n\<close> URLs as
  pictures, picture \<open>i\<close> in column \<open>i mod min 5 n\<close>, the count, and the download button;
  the archive behind the button is the one \<open>download_images_as_zip\<close> builds from all
  \<open>n\<close> URLs, each of which is requested once more.
\<close>

theorem fetch_button_preview:
  assumes "query \<noteq> []"
    and "fetching w query n resolution ai_filter s = (Inr urls, s1)"
    and "urls \<noteq> []"
  shows "fetch_button w query n resolution ai_filter s =
     (Inr (),
      s1\<lparr>shown := shown s1 @
          [Success (''Fetched '' @ str_nat (length urls) @ '' images successfully! '' @ party_popper),
           Columns (min 5 (length urls))] @
          map (\<lambda>(i, u). Image (i mod min 5 (length urls)) u) (enumerate 0 (take 20 urls)) @
          [Write (''Showing '' @ str_nat (min (length urls) 20) @ '' out of '' @
                  str_nat (length urls) @ '' images.'')] @
          List.map_filter (download_error w (length (sent s1))) (enumerate 0 urls) @
          [Download_button (inbox_tray @ '' Download All Images as ZIP'')
             \<lparr>members = List.map_filter (downloaded w (length (sent s1))) (enumerate 0 urls),
              central_directory = True, tell = 0\<rparr>
             (query @ ''_images.zip'') ''application/zip''],
        sent := sent s1 @ map Get urls,
        archives := archives s1 + 1\<rparr>) \<and>
   thumbnails (drop (length (shown s1)) (shown (snd (fetch_button w query n resolution ai_filter s)))) =
     map (\<lambda>(i, u). (i mod min 5 (length urls), u)) (enumerate 0 (take 20 urls)) \<and>
   length (thumbnails (drop (length (shown s1))
             (shown (snd (fetch_button w query n resolution ai_filter s))))) = min 20 (length urls)"
proof -
  have run: "fetch_button w query n resolution ai_filter s = show_results w query urls s1"
    using assms by (simp add: fetch_button_def)
  show ?thesis
    unfolding run download_button_run
    by (simp add: thumbnails_append thumbnails_images thumbnails_errors min.commute)
qed

text \<open>
  The search for \<open>sky\<close> yields 25 URLs: 20 pictures are shown in 5 columns, and all 25
  URLs are requested for the archive.
\<close>

theorem fetch_button_preview_witness:
  "fetching example_world ''sky'' 25 ''640x480'' False start =
     (Inr (map (\<lambda>i. str_nat i @ ''_s'') [0..<25]),
      start\<lparr>sent := [Search ''sky'' 25 1], shown := [Spinner ''Fetching images...'']\<rparr>) \<and>
   length (thumbnails (drop 1
     (shown (snd (fetch_button example_world ''sky'' 25 ''640x480'' False start))))) = 20 \<and>
   Columns 5 \<in> set (shown (snd (fetch_button example_world ''sky'' 25 ''640x480'' False start))) \<and>
   sent (snd (fetch_button example_world ''sky'' 25 ''640x480'' False start)) =
     Search ''sky'' 25 1 # map Get (map (\<lambda>i. str_nat i @ ''_s'') [0..<25])"
proof -
  let ?urls = "map (\<lambda>i. str_nat i @ ''_s'') [0..<25]"
  let ?s1 = "start\<lparr>sent := [Search ''sky'' 25 1], shown := [Spinner ''Fetching images...'']\<rparr>"
  have run: "fetching example_world ''sky'' 25 ''640x480'' False start = (Inr ?urls, ?s1)"
    by code_simp
  have "''sky'' \<noteq> []" and "?urls \<noteq> []"
    by simp_all
  note preview = fetch_button_preview [OF this(1) run this(2)]
  from preview have "length (thumbnails (drop (length (shown ?s1))
      (shown (snd (fetch_button example_world ''sky'' 25 ''640x480'' False start))))) =
      min 20 (length ?urls)"
    by blast
  then have pictures: "length (thumbnails (drop 1
      (shown (snd (fetch_button example_world ''sky'' 25 ''640x480'' False start))))) = 20"
    by simp
  from preview have
    "shown (snd (fetch_button example_world ''sky'' 25 ''640x480'' False start)) =
       shown ?s1 @
          [Success (''Fetched '' @ str_nat (length ?urls) @ '' images successfully! '' @ party_popper),
           Columns (min 5 (length ?urls))] @
          map (\<lambda>(i, u). Image (i mod min 5 (length ?urls)) u) (enumerate 0 (take 20 ?urls)) @
          [Write (''Showing '' @ str_nat (min (length ?urls) 20) @ '' out of '' @
                  str_nat (length ?urls) @ '' images.'')] @
          List.map_filter (download_error example_world (length (sent ?s1))) (enumerate 0 ?urls) @
          [Download_button (inbox_tray @ '' Download All Images as ZIP'')
             \<lparr>members = List.map_filter (downloaded example_world (length (sent ?s1))) (enumerate 0 ?urls),
              central_directory = True, tell = 0\<rparr>
             (''sky'' @ ''_images.zip'') ''application/zip'']"
    and "sent (snd (fetch_button example_world ''sky'' 25 ''640x480'' False start)) =
       sent ?s1 @ map Get ?urls"
    by simp_all
  then have "Columns 5 \<in> set (shown (snd (fetch_button example_world ''sky'' 25 ''640x480'' False start)))"
    and "sent (snd (fetch_button example_world ''sky'' 25 ''640x480'' False start)) =
       Search ''sky'' 25 1 # map Get ?urls"
    by simp_all
  with run pictures show ?thesis by blast
qed

end
